theory Spec2Isabelle
  imports Main
begin

section \<open>The CSV to Excel converter (csv-to-excel-inpu.py)\<close>

text \<open>
  The development follows \<^verbatim>\<open>src/product-price-php-exporter/Version1/csv-to-excel-inpu.py\<close>.
  A Python \<^verbatim>\<open>str\<close> is a list of characters of an arbitrary type \<open>'c\<close> (the code points).
  The Unicode tables behind \<^verbatim>\<open>str.isspace\<close>, \<^verbatim>\<open>unicodedata.normalize('NFKC', _)\<close> and
  \<^verbatim>\<open>str.lower\<close> belong to the Python library, not to the repository: they are parameters,
  collected in the record \<open>textlib\<close>, together with the character U+0020 that
  \<^verbatim>\<open>' '.join\<close> inserts. The rows are the lists of fields that \<^verbatim>\<open>csv.reader\<close> yields for
  a readable file; the worksheet is a finite map from (row, column) to cell values.
  Failures of the file system, the codec and the spreadsheet library are not modelled: the one
  exception the converter itself raises is the \<^verbatim>\<open>ValueError\<close> of \<^verbatim>\<open>write_record\<close>, and the
  handlers that log and re-raise pass it on unchanged. Logging, cell styling and the
  wall-clock measurement are left out.
\<close>

subsection \<open>Library parameters and string builtins\<close>

record 'c textlib =
  isspace :: "'c \<Rightarrow> bool"
  nfkc :: "'c list \<Rightarrow> 'c list"
  lower :: "'c list \<Rightarrow> 'c list"
  space :: "'c"

text \<open>\<^verbatim>\<open>s.strip()\<close>: whitespace removed at both ends.\<close>

definition py_strip :: "'c textlib \<Rightarrow> 'c list \<Rightarrow> 'c list" where
  "py_strip U s = rev (dropWhile (isspace U) (rev (dropWhile (isspace U) s)))"

text \<open>
  \<^verbatim>\<open>s.split()\<close>: the maximal runs of non-whitespace characters, scanned left to right;
  \<open>w\<close> is the word collected so far.
\<close>

fun split_from :: "'c textlib \<Rightarrow> 'c list \<Rightarrow> 'c list \<Rightarrow> 'c list list" where
  "split_from U w [] = (if w = [] then [] else [w])"
| "split_from U w (c # cs) =
     (if isspace U c
      then (if w = [] then split_from U [] cs else w # split_from U [] cs)
      else split_from U (w @ [c]) cs)"

definition py_split :: "'c textlib \<Rightarrow> 'c list \<Rightarrow> 'c list list" where
  "py_split U s = split_from U [] s"

text \<open>\<^verbatim>\<open>sep.join(ws)\<close>.\<close>

fun py_join :: "'c list \<Rightarrow> 'c list list \<Rightarrow> 'c list" where
  "py_join sep [] = []"
| "py_join sep [w] = w"
| "py_join sep (w # v # ws) = w @ sep @ py_join sep (v # ws)"

subsection \<open>Configuration constants\<close>

definition MAX_EXCEL_ROWS :: int where
  "MAX_EXCEL_ROWS = 1048576"

subsection \<open>Data models\<close>

record 'c ProductRecord =
  product_name :: "'c list"
  price :: "'c list"
  category :: "'c list"
  row_number :: int

definition is_valid :: "'c textlib \<Rightarrow> 'c ProductRecord \<Rightarrow> bool" where
  "is_valid U p = (py_strip U (product_name p) \<noteq> [])"

definition normalize_name :: "'c textlib \<Rightarrow> 'c ProductRecord \<Rightarrow> 'c list" where
  "normalize_name U p =
     (if product_name p = [] then []
      else py_join [space U] (py_split U (lower U (nfkc U (py_strip U (product_name p))))))"

record ConversionStatistics =
  total_rows_read :: int
  empty_rows_skipped :: int
  invalid_rows_skipped :: int
  duplicate_rows_skipped :: int
  unique_products_written :: int
  columns_detected :: int

subsection \<open>DuplicateDetector\<close>

record 'c DuplicateDetector =
  seen_products :: "'c list set"
  duplicate_count :: int

definition DuplicateDetector_init :: "'c DuplicateDetector" where
  "DuplicateDetector_init = \<lparr>seen_products = {}, duplicate_count = 0\<rparr>"

definition is_duplicate ::
  "'c textlib \<Rightarrow> 'c DuplicateDetector \<Rightarrow> 'c ProductRecord \<Rightarrow> bool \<times> 'c DuplicateDetector" where
  "is_duplicate U d p =
     (let normalized_name = normalize_name U p in
      if normalized_name = [] then (False, d)
      else if normalized_name \<in> seen_products d
        then (True, d\<lparr>duplicate_count := duplicate_count d + 1\<rparr>)
        else (False, d\<lparr>seen_products := insert normalized_name (seen_products d)\<rparr>))"

definition get_duplicate_count :: "'c DuplicateDetector \<Rightarrow> int" where
  "get_duplicate_count d = duplicate_count d"

subsection \<open>CSVReader\<close>

type_synonym 'c csv_row = "'c list list"

definition read_row :: "'c textlib \<Rightarrow> int \<Rightarrow> 'c csv_row \<Rightarrow> 'c ProductRecord" where
  "read_row U n row =
     (if row = [] then
        \<lparr>product_name = [], price = [], category = [], row_number = n\<rparr>
      else
        \<lparr>product_name = (if length row \<ge> 1 then py_strip U (row ! 0) else []),
         price = (if length row \<ge> 2 then py_strip U (row ! 1) else []),
         category = (if length row \<ge> 3 then py_strip U (row ! 2) else []),
         row_number = n\<rparr>)"

fun read_rows :: "'c textlib \<Rightarrow> int \<Rightarrow> 'c csv_row list \<Rightarrow> 'c ProductRecord list" where
  "read_rows U n [] = []"
| "read_rows U n (row # rows) = read_row U n row # read_rows U (n + 1) rows"

text \<open>\<^verbatim>\<open>next(reader, None)\<close> drops the first row when there is one.\<close>

definition read_records :: "'c textlib \<Rightarrow> 'c csv_row list \<Rightarrow> bool \<Rightarrow> 'c ProductRecord list" where
  "read_records U file skip_header =
     read_rows U (if skip_header then 2 else 1) (if skip_header then drop 1 file else file)"

text \<open>
  \<^verbatim>\<open>detect_column_count\<close> opens the file anew and looks at its first row; the handler that
  answers 2 when the library raises is outside the model.
\<close>

definition detect_column_count :: "'c textlib \<Rightarrow> 'c csv_row list \<Rightarrow> int" where
  "detect_column_count U file =
     (case file of
        [] \<Rightarrow> 2
      | first_row # _ \<Rightarrow>
          if first_row = [] then 2
          else max (int (length (filter (\<lambda>col. py_strip U col \<noteq> []) first_row))) 2)"

subsection \<open>ExcelWriter\<close>

datatype 'c cell = Header nat | Text "'c list"

type_synonym 'c sheet = "int \<times> int \<Rightarrow> 'c cell option"

record 'c ExcelWriter =
  column_count :: int
  worksheet :: "'c sheet"
  current_row :: int

datatype error = ValueError

text \<open>
  \<^verbatim>\<open>_setup_headers\<close>: \<open>Header k\<close> stands for the header text of column index \<open>k\<close>
  (\<^verbatim>\<open>Config.DEFAULT_HEADERS.get(k, ...)\<close>).
\<close>

definition setup_headers :: "int \<Rightarrow> 'c sheet" where
  "setup_headers cc =
     fold (\<lambda>col_idx ws. ws((1, int col_idx + 1) \<mapsto> Header col_idx)) [0..<nat cc] Map.empty"

definition ExcelWriter_init :: "int \<Rightarrow> 'c ExcelWriter" where
  "ExcelWriter_init cc = \<lparr>column_count = cc, worksheet = setup_headers cc, current_row = 2\<rparr>"

definition write_record :: "'c ExcelWriter \<Rightarrow> 'c ProductRecord \<Rightarrow> error + 'c ExcelWriter" where
  "write_record w p =
     (if current_row w > MAX_EXCEL_ROWS then Inl ValueError
      else
        let ws1 = (worksheet w)((current_row w, 1) \<mapsto> Text (product_name p));
            ws2 = ws1((current_row w, 2) \<mapsto> Text (price p));
            ws3 = (if column_count w \<ge> 3 \<and> category p \<noteq> []
                   then ws2((current_row w, 3) \<mapsto> Text (category p)) else ws2)
        in Inr (w\<lparr>worksheet := ws3, current_row := current_row w + 1\<rparr>))"

text \<open>\<^verbatim>\<open>save\<close> replaces the content of the output file by the worksheet.\<close>

definition save :: "'c ExcelWriter \<Rightarrow> 'c sheet option \<Rightarrow> 'c sheet option" where
  "save w disk = Some (worksheet w)"

definition get_rows_written :: "'c ExcelWriter \<Rightarrow> int" where
  "get_rows_written w = current_row w - 2"

subsection \<open>CSVToExcelConverter\<close>

record 'c CSVToExcelConverter =
  statistics :: ConversionStatistics
  duplicate_detector :: "'c DuplicateDetector"

definition CSVToExcelConverter_init :: "'c CSVToExcelConverter" where
  "CSVToExcelConverter_init =
     \<lparr>statistics = \<lparr>total_rows_read = 0, empty_rows_skipped = 0, invalid_rows_skipped = 0,
                    duplicate_rows_skipped = 0, unique_products_written = 0,
                    columns_detected = 0\<rparr>,
      duplicate_detector = DuplicateDetector_init\<rparr>"

text \<open>
  One iteration of the loop of \<^verbatim>\<open>_process_records\<close>. The first component of the result
  names the branch the iteration took.
\<close>

datatype outcome = Blank | Invalid | Duplicate | Admitted

definition process_record ::
  "'c textlib \<Rightarrow> 'c CSVToExcelConverter \<Rightarrow> 'c ExcelWriter \<Rightarrow> 'c ProductRecord
    \<Rightarrow> error + (outcome \<times> 'c CSVToExcelConverter \<times> 'c ExcelWriter)" where
  "process_record U self excel_writer p =
     (let st = (statistics self)\<lparr>total_rows_read := total_rows_read (statistics self) + 1\<rparr> in
      if product_name p = [] \<and> price p = [] then
        Inr (Blank,
             self\<lparr>statistics := st\<lparr>empty_rows_skipped := empty_rows_skipped st + 1\<rparr>\<rparr>,
             excel_writer)
      else if \<not> is_valid U p then
        Inr (Invalid,
             self\<lparr>statistics := st\<lparr>invalid_rows_skipped := invalid_rows_skipped st + 1\<rparr>\<rparr>,
             excel_writer)
      else
        (case is_duplicate U (duplicate_detector self) p of
           (True, d) \<Rightarrow>
             Inr (Duplicate, self\<lparr>statistics := st, duplicate_detector := d\<rparr>, excel_writer)
         | (False, d) \<Rightarrow>
             (case write_record excel_writer p of
                Inl e \<Rightarrow> Inl e
              | Inr w \<Rightarrow>
                  Inr (Admitted, self\<lparr>statistics := st, duplicate_detector := d\<rparr>, w))))"

fun process_records ::
  "'c textlib \<Rightarrow> 'c CSVToExcelConverter \<Rightarrow> 'c ExcelWriter \<Rightarrow> 'c ProductRecord list
    \<Rightarrow> error + (outcome list \<times> 'c CSVToExcelConverter \<times> 'c ExcelWriter)" where
  "process_records U self excel_writer [] = Inr ([], self, excel_writer)"
| "process_records U self excel_writer (p # ps) =
     (case process_record U self excel_writer p of
        Inl e \<Rightarrow> Inl e
      | Inr (out, self', w') \<Rightarrow>
          (case process_records U self' w' ps of
             Inl e \<Rightarrow> Inl e
           | Inr (outs, self'', w'') \<Rightarrow> Inr (out # outs, self'', w'')))"

text \<open>
  \<^verbatim>\<open>convert\<close>: the second argument of the result is the content of the output file,
  \<open>disk\<close> before the call. An exception leaves before \<^verbatim>\<open>excel_writer.save()\<close>.
\<close>

definition convert ::
  "'c textlib \<Rightarrow> 'c CSVToExcelConverter \<Rightarrow> 'c csv_row list \<Rightarrow> 'c sheet option
    \<Rightarrow> (error + ConversionStatistics) \<times> 'c sheet option" where
  "convert U self file disk =
     (let cols = detect_column_count U file;
          self1 = self\<lparr>statistics := (statistics self)\<lparr>columns_detected := cols\<rparr>\<rparr>;
          excel_writer = ExcelWriter_init cols
      in case process_records U self1 excel_writer (read_records U file True) of
           Inl e \<Rightarrow> (Inl e, disk)
         | Inr (outs, self2, w) \<Rightarrow>
             (Inr ((statistics self2)
                     \<lparr>unique_products_written := get_rows_written w,
                      duplicate_rows_skipped := get_duplicate_count (duplicate_detector self2)\<rparr>),
              save w disk))"

subsection \<open>An ASCII instance of the library parameters\<close>

text \<open>
  On strings of ASCII characters Python's whitespace test, NFKC normalisation and
  \<^verbatim>\<open>lower\<close> are the following functions; they serve to evaluate the code on examples.
\<close>

definition ascii_isspace :: "char \<Rightarrow> bool" where
  "ascii_isspace c =
     (let n = (of_char c :: nat) in (9 \<le> n \<and> n \<le> 13) \<or> (28 \<le> n \<and> n \<le> 32))"

definition ascii_lower :: "char \<Rightarrow> char" where
  "ascii_lower c =
     (let n = (of_char c :: nat) in if 65 \<le> n \<and> n \<le> 90 then char_of (n + 32) else c)"

definition ascii :: "char textlib" where
  "ascii = \<lparr>isspace = ascii_isspace, nfkc = (\<lambda>s. s), lower = map ascii_lower,
            space = CHR '' ''\<rparr>"

subsection \<open>Notions used in the statements\<close>

text \<open>
  \<open>count_out x outs\<close> counts the iterations that took branch \<open>x\<close>; \<open>admitted_of ps outs\<close>
  is the input restricted to the records whose iteration reached \<^verbatim>\<open>write_record\<close>;
  \<open>sheet_row\<close> reads the first three cells of a worksheet row and \<open>row_cells\<close> is what
  \<^verbatim>\<open>write_record\<close> puts there; \<open>rows_free\<close> says that nothing is stored from the current row
  downwards; \<open>convert_loop\<close> is the call of \<^verbatim>\<open>_process_records\<close> as \<^verbatim>\<open>convert\<close> makes it.
\<close>

definition count_out :: "outcome \<Rightarrow> outcome list \<Rightarrow> int" where
  "count_out x outs = int (length (filter (\<lambda>out. out = x) outs))"

fun admitted_of :: "'a list \<Rightarrow> outcome list \<Rightarrow> 'a list" where
  "admitted_of (p # ps) (out # outs) =
     (if out = Admitted then p # admitted_of ps outs else admitted_of ps outs)"
| "admitted_of _ _ = []"

definition sheet_row :: "'c sheet \<Rightarrow> int \<Rightarrow> 'c cell option \<times> 'c cell option \<times> 'c cell option" where
  "sheet_row ws i = (ws (i, 1), ws (i, 2), ws (i, 3))"

definition row_cells ::
  "int \<Rightarrow> 'c ProductRecord \<Rightarrow> 'c cell option \<times> 'c cell option \<times> 'c cell option" where
  "row_cells cc p =
     (Some (Text (product_name p)), Some (Text (price p)),
      if cc \<ge> 3 \<and> category p \<noteq> [] then Some (Text (category p)) else None)"

definition rows_free :: "'c ExcelWriter \<Rightarrow> bool" where
  "rows_free w = (\<forall>i j. current_row w \<le> i \<longrightarrow> worksheet w (i, j) = None)"

definition convert_loop ::
  "'c textlib \<Rightarrow> 'c CSVToExcelConverter \<Rightarrow> 'c csv_row list
    \<Rightarrow> error + (outcome list \<times> 'c CSVToExcelConverter \<times> 'c ExcelWriter)" where
  "convert_loop U self file =
     process_records U
       (self\<lparr>statistics := (statistics self)\<lparr>columns_detected := detect_column_count U file\<rparr>\<rparr>)
       (ExcelWriter_init (detect_column_count U file)) (read_records U file True)"


text \<open>
  The canonical key in the words of the specification: trim, compatibility normalisation,
  case mapping, then every run of whitespace collapsed to a single space.
\<close>

fun collapse_ws :: "'c textlib \<Rightarrow> 'c list \<Rightarrow> 'c list" where
  "collapse_ws U [] = []"
| "collapse_ws U [c] = (if isspace U c then [space U] else [c])"
| "collapse_ws U (c # d # cs) =
     (if isspace U c \<and> isspace U d then collapse_ws U (d # cs)
      else (if isspace U c then space U else c) # collapse_ws U (d # cs))"

definition canonical_key :: "'c textlib \<Rightarrow> 'c list \<Rightarrow> 'c list" where
  "canonical_key U s = collapse_ws U (lower U (nfkc U (py_strip U s)))"




definition product_row :: "nat \<Rightarrow> char csv_row" where
  "product_row k = [replicate (Suc k) CHR ''a'', ''1'']"

definition many_products :: "nat \<Rightarrow> char csv_row list" where
  "many_products n = [''name'', ''price''] # map product_row [0..<n]"

text \<open>Two small files for evaluating the code.\<close>

definition scenario_rows :: "char csv_row list" where
  "scenario_rows =
     [[''name'', ''price''], [''Apple  Pie '', ''10''], [''Banana'', []],
      [''  aPPLE pie'', ''12'']]"


section \<open>Properties of the string builtins and of one iteration\<close>

lemma py_strip_Nil [simp]: "py_strip U [] = []"
  by (simp add: py_strip_def)

lemma py_strip_idem [simp]: "py_strip U (py_strip U s) = py_strip U s"
proof -
  define t where "t = dropWhile (isspace U) s"
  define u where "u = rev (dropWhile (isspace U) (rev t))"
  have ru: "rev u = dropWhile (isspace U) (rev t)"
    by (simp add: u_def)
  have t: "t = u @ rev (takeWhile (isspace U) (rev t))"
    unfolding u_def by (metis rev_append rev_rev_ident takeWhile_dropWhile_id)
  have "dropWhile (isspace U) u = u"
  proof (cases "u = []")
    case True
    then show ?thesis by simp
  next
    case False
    then have "hd u = hd t"
      using t by (metis hd_append2)
    moreover have "t \<noteq> []"
      using False t by auto
    then have "\<not> isspace U (hd t)"
      unfolding t_def by (rule hd_dropWhile)
    ultimately show ?thesis
      using False by (cases u) auto
  qed
  then have "py_strip U u = u"
    by (simp add: py_strip_def ru) (simp add: u_def)
  moreover have "py_strip U s = u"
    by (simp add: py_strip_def u_def t_def)
  ultimately show ?thesis by simp
qed

lemma is_valid_name: "is_valid U p \<Longrightarrow> product_name p \<noteq> []"
  by (auto simp: is_valid_def)

lemma process_record_blank:
  "product_name p = [] \<Longrightarrow> price p = [] \<Longrightarrow>
   process_record U self w p =
     Inr (Blank,
          self\<lparr>statistics := (statistics self)
                 \<lparr>total_rows_read := total_rows_read (statistics self) + 1,
                  empty_rows_skipped := empty_rows_skipped (statistics self) + 1\<rparr>\<rparr>,
          w)"
  by (simp add: process_record_def Let_def)

lemma process_record_invalid:
  "py_strip U (product_name p) = [] \<Longrightarrow> price p \<noteq> [] \<Longrightarrow>
   process_record U self w p =
     Inr (Invalid,
          self\<lparr>statistics := (statistics self)
                 \<lparr>total_rows_read := total_rows_read (statistics self) + 1,
                  invalid_rows_skipped := invalid_rows_skipped (statistics self) + 1\<rparr>\<rparr>,
          w)"
  by (simp add: process_record_def Let_def is_valid_def)

lemma process_record_duplicate:
  "is_valid U p \<Longrightarrow> normalize_name U p \<noteq> [] \<Longrightarrow>
   normalize_name U p \<in> seen_products (duplicate_detector self) \<Longrightarrow>
   process_record U self w p =
     Inr (Duplicate,
          self\<lparr>statistics := (statistics self)
                 \<lparr>total_rows_read := total_rows_read (statistics self) + 1\<rparr>,
               duplicate_detector := (duplicate_detector self)
                 \<lparr>duplicate_count := duplicate_count (duplicate_detector self) + 1\<rparr>\<rparr>,
          w)"
  by (auto simp: process_record_def Let_def is_duplicate_def dest: is_valid_name)

lemma process_record_admitted:
  "is_valid U p \<Longrightarrow> normalize_name U p \<notin> seen_products (duplicate_detector self) \<Longrightarrow>
   current_row w \<le> MAX_EXCEL_ROWS \<Longrightarrow>
   \<exists>w'. write_record w p = Inr w' \<and>
     process_record U self w p =
       Inr (Admitted,
            self\<lparr>statistics := (statistics self)
                   \<lparr>total_rows_read := total_rows_read (statistics self) + 1\<rparr>,
                 duplicate_detector := (duplicate_detector self)
                   \<lparr>seen_products := (if normalize_name U p = [] then seen_products (duplicate_detector self) else insert (normalize_name U p) (seen_products (duplicate_detector self)))\<rparr>\<rparr>,
            w')"
  by (auto simp: process_record_def Let_def is_duplicate_def write_record_def dest: is_valid_name)

section \<open>Properties of the loop\<close>

lemma count_out_simps [simp]:
  "count_out x [] = 0"
  "count_out x (out # outs) = (if out = x then 1 else 0) + count_out x outs"
  by (simp_all add: count_out_def)

lemma count_out_total:
  "int (length outs) =
     count_out Blank outs + count_out Invalid outs + count_out Duplicate outs
       + count_out Admitted outs"
proof (induction outs)
  case Nil
  show ?case by simp
next
  case (Cons out outs)
  then show ?case by (cases out) simp_all
qed

lemma length_admitted_of:
  "length outs = length ps \<Longrightarrow> int (length (admitted_of ps outs)) = count_out Admitted outs"
  by (induction ps outs rule: admitted_of.induct) auto

lemma process_record_outcome:
  assumes "process_record U self w p = Inr (out, self', w')"
  shows "out = (if product_name p = [] \<and> price p = [] then Blank
                else if \<not> is_valid U p then Invalid
                else if normalize_name U p \<noteq> []
                        \<and> normalize_name U p \<in> seen_products (duplicate_detector self)
                  then Duplicate else Admitted)"
  using assms
  by (auto simp: process_record_def Let_def is_duplicate_def
           split: if_splits sum.splits)

lemma process_record_seen:
  assumes "process_record U self w p = Inr (out, self', w')"
  shows "seen_products (duplicate_detector self') =
           seen_products (duplicate_detector self) \<union>
             (if is_valid U p \<and> normalize_name U p \<noteq> [] then {normalize_name U p} else {})"
  using assms
  by (auto simp: process_record_def Let_def is_duplicate_def
           dest: is_valid_name split: if_splits sum.splits)

lemma process_record_counts:
  assumes "process_record U self w p = Inr (out, self', w')"
  shows "total_rows_read (statistics self') = total_rows_read (statistics self) + 1"
    and "empty_rows_skipped (statistics self') =
           empty_rows_skipped (statistics self) + (if out = Blank then 1 else 0)"
    and "invalid_rows_skipped (statistics self') =
           invalid_rows_skipped (statistics self) + (if out = Invalid then 1 else 0)"
    and "duplicate_count (duplicate_detector self') =
           duplicate_count (duplicate_detector self) + (if out = Duplicate then 1 else 0)"
    and "current_row w' = current_row w + (if out = Admitted then 1 else 0)"
    and "columns_detected (statistics self') = columns_detected (statistics self)"
    and "column_count w' = column_count w"
  using assms
  by (auto simp: process_record_def Let_def is_duplicate_def write_record_def
           split: if_splits sum.splits)

lemma process_records_ConsE:
  assumes "process_records U self w (p # ps) = Inr (outs, self', w')"
  obtains out outs1 self1 w1 where
    "process_record U self w p = Inr (out, self1, w1)"
    "process_records U self1 w1 ps = Inr (outs1, self', w')"
    "outs = out # outs1"
  using assms by (auto split: sum.splits)

lemma process_records_length:
  "process_records U self w ps = Inr (outs, self', w') \<Longrightarrow> length outs = length ps"
proof (induction ps arbitrary: self w outs)
  case Nil
  then show ?case by simp
next
  case (Cons p ps)
  from Cons.prems show ?case
    by (rule process_records_ConsE) (auto dest: Cons.IH)
qed

lemma process_records_counts:
  assumes "process_records U self w ps = Inr (outs, self', w')"
  shows "total_rows_read (statistics self') =
           total_rows_read (statistics self) + int (length ps)"
    and "empty_rows_skipped (statistics self') =
           empty_rows_skipped (statistics self) + count_out Blank outs"
    and "invalid_rows_skipped (statistics self') =
           invalid_rows_skipped (statistics self) + count_out Invalid outs"
    and "duplicate_count (duplicate_detector self') =
           duplicate_count (duplicate_detector self) + count_out Duplicate outs"
    and "current_row w' = current_row w + count_out Admitted outs"
    and "columns_detected (statistics self') = columns_detected (statistics self)"
    and "column_count w' = column_count w"
  using assms
proof (induction ps arbitrary: self w outs)
  case Nil
  {
    case 1 then show ?case by simp
  next
    case 2 then show ?case by simp
  next
    case 3 then show ?case by simp
  next
    case 4 then show ?case by simp
  next
    case 5 then show ?case by simp
  next
    case 6 then show ?case by simp
  next
    case 7 then show ?case by simp
  }
next
  case (Cons p ps)
  {
    case 1
    then show ?case
      by (rule process_records_ConsE)
         (simp add: Cons.IH(1) process_record_counts(1))
  next
    case 2
    then show ?case
      by (rule process_records_ConsE)
         (simp add: Cons.IH(2) process_record_counts(2))
  next
    case 3
    then show ?case
      by (rule process_records_ConsE)
         (simp add: Cons.IH(3) process_record_counts(3))
  next
    case 4
    then show ?case
      by (rule process_records_ConsE)
         (simp add: Cons.IH(4) process_record_counts(4))
  next
    case 5
    then show ?case
      by (rule process_records_ConsE)
         (simp add: Cons.IH(5) process_record_counts(5))
  next
    case 6
    then show ?case
      by (rule process_records_ConsE)
         (simp add: Cons.IH(6) process_record_counts(6))
  next
    case 7
    then show ?case
      by (rule process_records_ConsE)
         (simp add: Cons.IH(7) process_record_counts(7))
  }
qed

lemma process_records_nth:
  assumes "process_records U self w ps = Inr (outs, self', w')" and "i < length ps"
  shows "outs ! i =
           (if product_name (ps ! i) = [] \<and> price (ps ! i) = [] then Blank
            else if \<not> is_valid U (ps ! i) then Invalid
            else if normalize_name U (ps ! i) \<noteq> [] \<and>
                    (normalize_name U (ps ! i) \<in> seen_products (duplicate_detector self) \<or>
                     (\<exists>j<i. is_valid U (ps ! j) \<and>
                             normalize_name U (ps ! j) = normalize_name U (ps ! i)))
              then Duplicate else Admitted)"
  using assms
proof (induction ps arbitrary: self w outs i)
  case Nil
  then show ?case by simp
next
  case (Cons p ps)
  from Cons.prems(1) obtain out outs1 self1 w1 where
    step: "process_record U self w p = Inr (out, self1, w1)" and
    rest: "process_records U self1 w1 ps = Inr (outs1, self', w')" and
    outs: "outs = out # outs1"
    by (rule process_records_ConsE)
  show ?case
  proof (cases i)
    case 0
    then show ?thesis
      using process_record_outcome [OF step] outs by simp
  next
    case (Suc k)
    then have k: "k < length ps"
      using Cons.prems(2) by simp
    have seen: "seen_products (duplicate_detector self1) =
        seen_products (duplicate_detector self) \<union>
          (if is_valid U p \<and> normalize_name U p \<noteq> [] then {normalize_name U p} else {})"
      by (rule process_record_seen [OF step])
    have ex: "(\<exists>j<Suc k. is_valid U ((p # ps) ! j) \<and>
                 normalize_name U ((p # ps) ! j) = normalize_name U (ps ! k)) \<longleftrightarrow>
              (is_valid U p \<and> normalize_name U p = normalize_name U (ps ! k)) \<or>
              (\<exists>j<k. is_valid U (ps ! j) \<and>
                 normalize_name U (ps ! j) = normalize_name U (ps ! k))"
      by (auto simp: less_Suc_eq_0_disj)
    have iff: "(normalize_name U (ps ! k) \<noteq> [] \<and>
                 (normalize_name U (ps ! k) \<in> seen_products (duplicate_detector self) \<or>
                  (\<exists>j<Suc k. is_valid U ((p # ps) ! j) \<and>
                     normalize_name U ((p # ps) ! j) = normalize_name U (ps ! k)))) \<longleftrightarrow>
               (normalize_name U (ps ! k) \<noteq> [] \<and>
                 (normalize_name U (ps ! k) \<in> seen_products (duplicate_detector self1) \<or>
                  (\<exists>j<k. is_valid U (ps ! j) \<and>
                     normalize_name U (ps ! j) = normalize_name U (ps ! k))))"
      unfolding ex seen by (cases "is_valid U p \<and> normalize_name U p \<noteq> []") auto
    show ?thesis
      unfolding Suc outs nth_Cons_Suc iff by (rule Cons.IH [OF rest k])
  qed
qed

lemma write_record_effect:
  assumes "write_record w p = Inr w'"
  shows "current_row w' = current_row w + 1"
    and "column_count w' = column_count w"
    and "current_row w \<le> MAX_EXCEL_ROWS"
    and "i \<noteq> current_row w \<Longrightarrow> worksheet w' (i, j) = worksheet w (i, j)"
    and "rows_free w \<Longrightarrow> rows_free w'"
    and "rows_free w \<Longrightarrow> sheet_row (worksheet w') (current_row w) = row_cells (column_count w) p"
  using assms
  by (auto simp: write_record_def Let_def rows_free_def sheet_row_def row_cells_def
           split: if_splits)

lemma process_record_writer:
  assumes "process_record U self w p = Inr (out, self', w')"
  shows "out \<noteq> Admitted \<Longrightarrow> w' = w"
    and "out = Admitted \<Longrightarrow> write_record w p = Inr w'"
  using assms
  by (auto simp: process_record_def Let_def split: if_splits sum.splits prod.splits bool.splits)

lemma process_records_sheet:
  assumes "process_records U self w ps = Inr (outs, self', w')" and "rows_free w"
  shows "rows_free w' \<and>
         (\<forall>i j. i < current_row w \<longrightarrow> worksheet w' (i, j) = worksheet w (i, j)) \<and>
         (\<forall>k<length (admitted_of ps outs).
            sheet_row (worksheet w') (current_row w + int k) =
              row_cells (column_count w) (admitted_of ps outs ! k))"
  using assms
proof (induction ps arbitrary: self w outs)
  case Nil
  then show ?case by simp
next
  case (Cons p ps)
  from Cons.prems(1) obtain out outs1 self1 w1 where
    step: "process_record U self w p = Inr (out, self1, w1)" and
    rest: "process_records U self1 w1 ps = Inr (outs1, self', w')" and
    outs: "outs = out # outs1"
    by (rule process_records_ConsE)
  show ?case
  proof (cases "out = Admitted")
    case False
    then have "w1 = w"
      using process_record_writer(1) [OF step] by simp
    then show ?thesis
      using Cons.IH [OF rest] Cons.prems(2) False outs by simp
  next
    case True
    have wr: "write_record w p = Inr w1"
      using process_record_writer(2) [OF step True] .
    have free1: "rows_free w1"
      using write_record_effect(5) [OF wr] Cons.prems(2) .
    have row1: "current_row w1 = current_row w + 1"
      using write_record_effect(1) [OF wr] .
    have cc1: "column_count w1 = column_count w"
      using write_record_effect(2) [OF wr] .
    have here: "sheet_row (worksheet w1) (current_row w) = row_cells (column_count w) p"
      using write_record_effect(6) [OF wr] Cons.prems(2) .
    note IH = Cons.IH [OF rest free1]
    have keep: "worksheet w' (i, j) = worksheet w1 (i, j)" if "i < current_row w1" for i j
      using IH that by blast
    have A: "rows_free w'"
      using IH by blast
    have B: "worksheet w' (i, j) = worksheet w (i, j)" if "i < current_row w" for i j
      using keep [of i j] write_record_effect(4) [OF wr, of i j] that row1 by simp
    have C: "sheet_row (worksheet w') (current_row w + int k) =
               row_cells (column_count w) (admitted_of (p # ps) outs ! k)"
      if "k < length (admitted_of (p # ps) outs)" for k
    proof (cases k)
      case 0
      have "sheet_row (worksheet w') (current_row w) = sheet_row (worksheet w1) (current_row w)"
        using keep [of "current_row w"] row1 by (simp add: sheet_row_def)
      then show ?thesis
        using 0 here outs True by simp
    next
      case (Suc m)
      then have "m < length (admitted_of ps outs1)"
        using that outs True by simp
      then have "sheet_row (worksheet w') (current_row w1 + int m) =
                   row_cells (column_count w1) (admitted_of ps outs1 ! m)"
        using IH by blast
      then show ?thesis
        using Suc outs True row1 cc1 by (simp add: ac_simps)
    qed
    show ?thesis
      using A B C by blast
  qed
qed

lemma setup_headers_cell:
  "(setup_headers cc :: 'c sheet) (i, j) =
     (if i = 1 \<and> 1 \<le> j \<and> j \<le> cc then Some (Header (nat (j - 1))) else None)"
proof -
  have "fold (\<lambda>col_idx ws. ws((1, int col_idx + 1) \<mapsto> Header col_idx)) [0..<n]
          (Map.empty :: 'c sheet) (i, j) =
        (if i = 1 \<and> 1 \<le> j \<and> j \<le> int n then Some (Header (nat (j - 1))) else None)" for n
  proof (induction n)
    case 0
    show ?case by simp
  next
    case (Suc n)
    then show ?case by (auto simp: nat_eq_iff)
  qed
  from this [of "nat cc"] show ?thesis
    by (auto simp: setup_headers_def)
qed

lemma rows_free_init: "rows_free (ExcelWriter_init cc)"
  by (simp add: rows_free_def ExcelWriter_init_def setup_headers_cell)

lemma process_records_append:
  "process_records U self w (xs @ ys) =
     (case process_records U self w xs of
        Inl e \<Rightarrow> Inl e
      | Inr (outs1, self1, w1) \<Rightarrow>
          (case process_records U self1 w1 ys of
             Inl e \<Rightarrow> Inl e
           | Inr (outs2, self2, w2) \<Rightarrow> Inr (outs1 @ outs2, self2, w2)))"
  by (induction xs arbitrary: self w) (auto split: sum.splits)

lemma process_records_seen:
  assumes "process_records U self w ps = Inr (outs, self', w')"
  shows "seen_products (duplicate_detector self') =
           seen_products (duplicate_detector self) \<union>
             {normalize_name U p | p. p \<in> set ps \<and> is_valid U p \<and> normalize_name U p \<noteq> []}"
  using assms
proof (induction ps arbitrary: self w outs)
  case Nil
  then show ?case by simp
next
  case (Cons p ps)
  from Cons.prems obtain out outs1 self1 w1 where
    step: "process_record U self w p = Inr (out, self1, w1)" and
    rest: "process_records U self1 w1 ps = Inr (outs1, self', w')"
    by (rule process_records_ConsE)
  show ?case
    unfolding Cons.IH [OF rest] process_record_seen [OF step] by auto
qed




lemma process_records_all_admitted:
  assumes "\<forall>p\<in>set ps. is_valid U p"
    and "distinct (filter (\<lambda>k. k \<noteq> []) (map (normalize_name U) ps))"
    and "\<forall>p\<in>set ps. normalize_name U p \<notin> seen_products (duplicate_detector self)"
    and "current_row w + int (length ps) \<le> MAX_EXCEL_ROWS + 1"
  shows "\<exists>self' w'. process_records U self w ps = Inr (replicate (length ps) Admitted, self', w')"
  using assms
proof (induction ps arbitrary: self w)
  case Nil
  then show ?case by simp
next
  case (Cons p ps)
  have "is_valid U p" "normalize_name U p \<notin> seen_products (duplicate_detector self)"
    "current_row w \<le> MAX_EXCEL_ROWS"
    using Cons.prems by auto
  from process_record_admitted [OF this] obtain self1 w1 where
    wr: "write_record w p = Inr w1" and
    step: "process_record U self w p = Inr (Admitted, self1, w1)"
    by blast
  have seen: "seen_products (duplicate_detector self1) =
      seen_products (duplicate_detector self) \<union>
        (if is_valid U p \<and> normalize_name U p \<noteq> [] then {normalize_name U p} else {})"
    by (rule process_record_seen [OF step])
  have 1: "\<forall>q\<in>set ps. is_valid U q"
    using Cons.prems(1) by simp
  have 2: "distinct (filter (\<lambda>k. k \<noteq> []) (map (normalize_name U) ps))"
    using Cons.prems(2) by (simp split: if_splits)
  have 3: "\<forall>q\<in>set ps. normalize_name U q \<notin> seen_products (duplicate_detector self1)"
  proof
    fix q
    assume q: "q \<in> set ps"
    then have a: "normalize_name U q \<notin> seen_products (duplicate_detector self)"
      using Cons.prems(3) by simp
    have "normalize_name U q \<noteq> normalize_name U p" if "normalize_name U p \<noteq> []"
    proof
      assume eq: "normalize_name U q = normalize_name U p"
      have "normalize_name U p \<notin> set (filter (\<lambda>k. k \<noteq> []) (map (normalize_name U) ps))"
        using Cons.prems(2) that by simp
      moreover have "normalize_name U q \<in> normalize_name U ` set ps"
        using q by (rule imageI)
      then have "normalize_name U q \<in> set (filter (\<lambda>k. k \<noteq> []) (map (normalize_name U) ps))"
        using that eq by simp
      ultimately show False
        using eq by simp
    qed
    then show "normalize_name U q \<notin> seen_products (duplicate_detector self1)"
      unfolding seen using a by auto
  qed
  have 4: "current_row w1 + int (length ps) \<le> MAX_EXCEL_ROWS + 1"
    using Cons.prems(4) write_record_effect(1) [OF wr] by simp
  from Cons.IH [OF 1 2 3 4] obtain self' w' where
    "process_records U self1 w1 ps = Inr (replicate (length ps) Admitted, self', w')"
    by blast
  then show ?case
    using step by simp
qed

lemma convert_InrE:
  assumes "fst (convert U self file disk) = Inr st"
  obtains outs self' w' where
    "convert_loop U self file
     = Inr (outs, self', w')"
    "st = (statistics self')
            \<lparr>unique_products_written := get_rows_written w',
             duplicate_rows_skipped := get_duplicate_count (duplicate_detector self')\<rparr>"
    "snd (convert U self file disk) = Some (worksheet w')"
  using assms
  by (auto simp: convert_def convert_loop_def Let_def save_def split: sum.splits)

lemma convert_Inl:
  assumes "convert_loop U self file = Inl e"
  shows "convert U self file disk = (Inl e, disk)"
  using assms by (simp add: convert_def convert_loop_def Let_def)

lemma length_read_rows [simp]: "length (read_rows U n rows) = length rows"
  by (induction rows arbitrary: n) simp_all

lemma length_read_records: "length (read_records U file True) = length (drop 1 file)"
  by (simp add: read_records_def)




lemma canonical_key_strip: "canonical_key U (py_strip U s) = canonical_key U s"
  by (simp add: canonical_key_def)

text \<open>
  Names that differ in surrounding whitespace, or that agree from some stage of the
  canonicalisation on, have the same canonical key.
\<close>

lemma py_strip_surrounding:
  assumes l: "\<forall>c\<in>set l. isspace U c" and r: "\<forall>c\<in>set r. isspace U c"
  shows "py_strip U (l @ s @ r) = py_strip U s"
proof -
  have 1: "dropWhile (isspace U) (l @ s @ r) = dropWhile (isspace U) (s @ r)"
    using l by (simp add: dropWhile_append2)
  show ?thesis
  proof (cases "\<forall>c\<in>set s. isspace U c")
    case True
    then have a: "dropWhile (isspace U) (s @ r) = []"
      using r by (simp add: dropWhile_eq_Nil_conv)
    have b: "dropWhile (isspace U) s = []"
      using True by (simp add: dropWhile_eq_Nil_conv)
    show ?thesis
      by (simp only: py_strip_def 1 a b)
  next
    case False
    then obtain c where c: "c \<in> set s" "\<not> isspace U c"
      by blast
    then have 2: "dropWhile (isspace U) (s @ r) = dropWhile (isspace U) s @ r"
      by (simp add: dropWhile_append1)
    have "dropWhile (isspace U) (rev r @ rev (dropWhile (isspace U) s))
            = dropWhile (isspace U) (rev (dropWhile (isspace U) s))"
      by (rule dropWhile_append2) (use r in simp)
    then show ?thesis
      by (simp add: py_strip_def 1 2)
  qed
qed

lemma canonical_key_variants:
  "py_strip U a = py_strip U b \<Longrightarrow> canonical_key U a = canonical_key U b"
  "nfkc U (py_strip U a) = nfkc U (py_strip U b) \<Longrightarrow> canonical_key U a = canonical_key U b"
  "lower U (nfkc U (py_strip U a)) = lower U (nfkc U (py_strip U b)) \<Longrightarrow>
     canonical_key U a = canonical_key U b"
  by (simp_all add: canonical_key_def)

lemma canonical_key_surrounding:
  "\<forall>c\<in>set l. isspace U c \<Longrightarrow> \<forall>c\<in>set r. isspace U c \<Longrightarrow>
   canonical_key U (l @ s @ r) = canonical_key U s"
  by (simp add: canonical_key_def py_strip_surrounding)

lemma admitted_of_zip:
  "length outs = length ps \<Longrightarrow>
   admitted_of ps outs = map fst (filter (\<lambda>(p, out). out = Admitted) (zip ps outs))"
  by (induction ps outs rule: admitted_of.induct) auto

lemma process_records_nth_valid:
  assumes "process_records U self w ps = Inr (outs, self', w')" and "i < length ps"
    and "is_valid U (ps ! i)" and "normalize_name U (ps ! i) \<noteq> []"
  shows "outs ! i =
           (if normalize_name U (ps ! i) \<in> seen_products (duplicate_detector self) \<or>
               (\<exists>j<i. is_valid U (ps ! j) \<and>
                       normalize_name U (ps ! j) = normalize_name U (ps ! i))
            then Duplicate else Admitted)"
proof -
  define E where "E \<longleftrightarrow> (\<exists>j<i. is_valid U (ps ! j) \<and>
                       normalize_name U (ps ! j) = normalize_name U (ps ! i))"
  have name: "product_name (ps ! i) \<noteq> []"
    using assms(3) by (rule is_valid_name)
  have "outs ! i =
           (if product_name (ps ! i) = [] \<and> price (ps ! i) = [] then Blank
            else if \<not> is_valid U (ps ! i) then Invalid
            else if normalize_name U (ps ! i) \<noteq> [] \<and>
                    (normalize_name U (ps ! i) \<in> seen_products (duplicate_detector self) \<or> E)
              then Duplicate else Admitted)"
    unfolding E_def by (rule process_records_nth [OF assms(1,2)])
  then have "outs ! i =
           (if normalize_name U (ps ! i) \<in> seen_products (duplicate_detector self) \<or> E
            then Duplicate else Admitted)"
    using name assms(3,4) by simp
  then show ?thesis
    unfolding E_def .
qed

lemma process_records_InrE:
  assumes "\<not> isl (process_records U self w ps)"
  obtains outs self' w' where "process_records U self w ps = Inr (outs, self', w')"
  using assms by (cases "process_records U self w ps") auto







lemma fst_is_duplicate:
  "fst (is_duplicate U d p) \<longleftrightarrow>
     normalize_name U p \<noteq> [] \<and> normalize_name U p \<in> seen_products d"
  by (simp add: is_duplicate_def Let_def)

lemma process_record_limit:
  assumes "current_row w > MAX_EXCEL_ROWS" and "is_valid U p"
    and "\<not> fst (is_duplicate U (duplicate_detector self) p)"
  shows "process_record U self w p = Inl ValueError"
proof -
  have "product_name p \<noteq> []"
    using assms(2) by (rule is_valid_name)
  moreover have "write_record w p = Inl ValueError"
    using assms(1) by (simp add: write_record_def)
  moreover obtain d where "is_duplicate U (duplicate_detector self) p = (False, d)"
    using assms(3) by (cases "is_duplicate U (duplicate_detector self) p") auto
  ultimately show ?thesis
    using assms(2) by (simp add: process_record_def Let_def)
qed

text \<open>A file with more products than the sheet holds.\<close>

lemma read_rows_append:
  "read_rows U n (xs @ ys) = read_rows U n xs @ read_rows U (n + int (length xs)) ys"
  by (induction xs arbitrary: n) (simp_all add: add.assoc)

lemma count_out_replicate [simp]: "count_out x (replicate n x) = int n"
  by (induction n) simp_all

lemma ascii_a:
  "\<not> isspace ascii CHR ''a''" "lower ascii s = map ascii_lower s" "nfkc ascii s = s"
  "ascii_lower CHR ''a'' = CHR ''a''" "space ascii = CHR '' ''"
  by (simp_all add: ascii_def) code_simp+

lemma split_from_no_space:
  "\<forall>c\<in>set s. \<not> isspace U c \<Longrightarrow>
   split_from U w s = (if w @ s = [] then [] else [w @ s])"
  by (induction s arbitrary: w) auto

lemma py_strip_a: "py_strip ascii (replicate (Suc k) CHR ''a'') = replicate (Suc k) CHR ''a''"
proof -
  have "dropWhile (isspace ascii) (replicate (Suc k) CHR ''a'') = replicate (Suc k) CHR ''a''"
    by (simp add: ascii_a(1))
  then show ?thesis
    unfolding py_strip_def by (simp only: rev_replicate)
qed

lemma read_row_product:
  "is_valid ascii (read_row ascii n (product_row k))"
  "normalize_name ascii (read_row ascii n (product_row k)) = replicate (Suc k) CHR ''a''"
proof -
  have name: "product_name (read_row ascii n (product_row k)) = replicate (Suc k) CHR ''a''"
    by (simp add: read_row_def product_row_def py_strip_a del: replicate_Suc)
  show "is_valid ascii (read_row ascii n (product_row k))"
    unfolding is_valid_def name py_strip_a by simp
  have "split_from ascii [] (replicate (Suc k) CHR ''a'') = [replicate (Suc k) CHR ''a'']"
    using split_from_no_space [of "replicate (Suc k) CHR ''a''" ascii "[]"]
    by (simp add: ascii_a(1))
  then show "normalize_name ascii (read_row ascii n (product_row k)) = replicate (Suc k) CHR ''a''"
    unfolding normalize_name_def name py_strip_a py_split_def
    by (simp add: ascii_a del: replicate_Suc)
qed

lemma read_rows_products:
  "\<forall>p\<in>set (read_rows ascii n (map product_row ks)). is_valid ascii p"
  "map (normalize_name ascii) (read_rows ascii n (map product_row ks)) =
     map (\<lambda>k. replicate (Suc k) CHR ''a'') ks"
  by (induction ks arbitrary: n) (simp_all add: read_row_product del: replicate_Suc)

lemma many_products_records:
  "read_records ascii (many_products (Suc N)) True =
     read_rows ascii 2 (map product_row [0..<N]) @ read_row ascii (2 + int N) (product_row N) # []"
  by (simp add: read_records_def many_products_def read_rows_append)

lemma detect_many_products: "detect_column_count ascii (many_products n) = 2"
proof -
  have "detect_column_count ascii (many_products n) =
          detect_column_count ascii ([''name'', ''price''] # [])"
    by (simp add: detect_column_count_def many_products_def)
  also have "\<dots> = 2"
    by code_simp
  finally show ?thesis .
qed

lemma many_products_prefix:
  assumes "int N = MAX_EXCEL_ROWS - 1"
  shows "\<exists>self' w'.
           process_records ascii
             (CSVToExcelConverter_init\<lparr>statistics :=
                (statistics (CSVToExcelConverter_init :: char CSVToExcelConverter))
                  \<lparr>columns_detected := detect_column_count ascii (many_products (Suc N))\<rparr>\<rparr>)
             (ExcelWriter_init (detect_column_count ascii (many_products (Suc N))))
             (read_rows ascii 2 (map product_row [0..<N]))
             = Inr (replicate N Admitted, self', w') \<and>
           get_rows_written w' = MAX_EXCEL_ROWS - 1 \<and>
           \<not> fst (is_duplicate ascii (duplicate_detector self')
                    (read_row ascii (2 + int N) (product_row N)))"
proof -
  let ?ps = "read_rows ascii 2 (map product_row [0..<N])"
  let ?self = "CSVToExcelConverter_init\<lparr>statistics :=
                (statistics (CSVToExcelConverter_init :: char CSVToExcelConverter))
                  \<lparr>columns_detected := detect_column_count ascii (many_products (Suc N))\<rparr>\<rparr>"
  let ?w = "ExcelWriter_init (detect_column_count ascii (many_products (Suc N))) :: char ExcelWriter"
  have keys: "map (normalize_name ascii) ?ps = map (\<lambda>k. replicate (Suc k) CHR ''a'') [0..<N]"
    by (rule read_rows_products(2))
  have inj: "inj_on (\<lambda>k. replicate (Suc k) CHR ''a'') (set [0..<N])"
    by (rule inj_onI) (metis length_replicate nat.inject)
  have "filter (\<lambda>k. k \<noteq> []) (map (normalize_name ascii) ?ps) = map (normalize_name ascii) ?ps"
    unfolding keys by (simp add: filter_id_conv)
  moreover have "distinct (map (normalize_name ascii) ?ps)"
    unfolding keys using inj by (simp add: distinct_map)
  ultimately have 2: "distinct (filter (\<lambda>k. k \<noteq> []) (map (normalize_name ascii) ?ps))"
    by simp
  have 1: "\<forall>p\<in>set ?ps. is_valid ascii p"
    by (rule read_rows_products(1))
  have 3: "\<forall>p\<in>set ?ps. normalize_name ascii p \<notin> seen_products (duplicate_detector ?self)"
    by (simp add: CSVToExcelConverter_init_def DuplicateDetector_init_def)
  have 4: "current_row ?w + int (length ?ps) \<le> MAX_EXCEL_ROWS + 1"
    using assms by (simp add: ExcelWriter_init_def)
  from process_records_all_admitted [OF 1 2 3 4] obtain self' w' where
    run: "process_records ascii ?self ?w ?ps = Inr (replicate (length ?ps) Admitted, self', w')"
    by blast
  have n: "get_rows_written w' = MAX_EXCEL_ROWS - 1"
    using process_records_counts(5) [OF run] assms
    by (simp add: get_rows_written_def ExcelWriter_init_def)
  have seen: "seen_products (duplicate_detector self') \<subseteq> normalize_name ascii ` set ?ps"
    unfolding process_records_seen [OF run]
    by (auto simp: CSVToExcelConverter_init_def DuplicateDetector_init_def)
  have "normalize_name ascii (read_row ascii (2 + int N) (product_row N))
          \<notin> normalize_name ascii ` set ?ps"
  proof
    assume "normalize_name ascii (read_row ascii (2 + int N) (product_row N))
          \<in> normalize_name ascii ` set ?ps"
    then have "replicate (Suc N) CHR ''a'' \<in> set (map (normalize_name ascii) ?ps)"
      by (simp add: read_row_product(2) del: replicate_Suc)
    then obtain k where "k < N" "replicate (Suc N) CHR ''a'' = replicate (Suc k) CHR ''a''"
      unfolding keys by auto
    then show False
      by (metis length_replicate nat.inject less_irrefl)
  qed
  then have d: "\<not> fst (is_duplicate ascii (duplicate_detector self')
                    (read_row ascii (2 + int N) (product_row N)))"
    using seen by (auto simp: fst_is_duplicate)
  show ?thesis
    using run n d by auto
qed


lemma count_out_replicate_other [simp]: "x \<noteq> y \<Longrightarrow> count_out x (replicate n y) = 0"
  by (induction n) simp_all






section \<open>The claims\<close>

subsection \<open>C1: equal canonical keys\<close>



subsection \<open>C2: the counters partition the rows read\<close>

text \<open>
  C2. When a conversion started on a new converter completes, the number of rows read is
  the number of rows after the header and equals the sum of the empty, invalid, duplicate
  and written counts; each of the four counts is the number of iterations that took the
  corresponding branch, and every iteration takes exactly one.
\<close>

theorem C2_counts_partition:
  assumes "fst (convert U CSVToExcelConverter_init file disk) = Inr st"
  shows "total_rows_read st =
           empty_rows_skipped st + invalid_rows_skipped st + duplicate_rows_skipped st
             + unique_products_written st \<and>
         total_rows_read st = int (length (drop 1 file)) \<and>
         (\<exists>outs self' w'.
            convert_loop U CSVToExcelConverter_init file = Inr (outs, self', w') \<and>
            length outs = length (drop 1 file) \<and>
            empty_rows_skipped st = count_out Blank outs \<and>
            invalid_rows_skipped st = count_out Invalid outs \<and>
            duplicate_rows_skipped st = count_out Duplicate outs \<and>
            unique_products_written st = count_out Admitted outs)"
proof (rule convert_InrE [OF assms])
  fix outs self' w'
  assume run: "convert_loop U CSVToExcelConverter_init file = Inr (outs, self', w')"
  assume st: "st = (statistics self')
            \<lparr>unique_products_written := get_rows_written w',
             duplicate_rows_skipped := get_duplicate_count (duplicate_detector self')\<rparr>"
  note c = process_records_counts [OF run [unfolded convert_loop_def]]
  have len: "length outs = length (drop 1 file)"
    using process_records_length [OF run [unfolded convert_loop_def]]
    by (simp add: length_read_records)
  have t: "total_rows_read st = int (length (drop 1 file))"
    using c(1) st by (simp add: CSVToExcelConverter_init_def length_read_records)
  have e: "empty_rows_skipped st = count_out Blank outs"
    using c(2) st by (simp add: CSVToExcelConverter_init_def)
  have i: "invalid_rows_skipped st = count_out Invalid outs"
    using c(3) st by (simp add: CSVToExcelConverter_init_def)
  have d: "duplicate_rows_skipped st = count_out Duplicate outs"
    using c(4) st
    by (simp add: CSVToExcelConverter_init_def DuplicateDetector_init_def get_duplicate_count_def)
  have a: "unique_products_written st = count_out Admitted outs"
    using c(5) st by (simp add: get_rows_written_def ExcelWriter_init_def)
  have "total_rows_read st =
           empty_rows_skipped st + invalid_rows_skipped st + duplicate_rows_skipped st
             + unique_products_written st"
    using count_out_total [of outs] len t e i d a by simp
  moreover have "\<exists>outs self' w'.
            convert_loop U CSVToExcelConverter_init file = Inr (outs, self', w') \<and>
            length outs = length (drop 1 file) \<and>
            empty_rows_skipped st = count_out Blank outs \<and>
            invalid_rows_skipped st = count_out Invalid outs \<and>
            duplicate_rows_skipped st = count_out Duplicate outs \<and>
            unique_products_written st = count_out Admitted outs"
    by (intro exI conjI) (fact run len e i d a)+
  ultimately show ?thesis
    using t by simp
qed

theorem C2_witness:
  "fst (convert ascii CSVToExcelConverter_init
          [[''name'', ''price''], [''Apple'', ''10''], [''apple '', '' 10''], [], ['''', ''5''],
           [''Banana'', '''']] None)
     = Inr \<lparr>total_rows_read = 5, empty_rows_skipped = 1, invalid_rows_skipped = 1,
            duplicate_rows_skipped = 1, unique_products_written = 2, columns_detected = 2\<rparr> \<and>
   (5::int) = 1 + 1 + 1 + 2"
proof -
  have h: "fst (convert ascii CSVToExcelConverter_init
          [[''name'', ''price''], [''Apple'', ''10''], [''apple '', '' 10''], [], ['''', ''5''],
           [''Banana'', '''']] None)
     = Inr \<lparr>total_rows_read = 5, empty_rows_skipped = 1, invalid_rows_skipped = 1,
            duplicate_rows_skipped = 1, unique_products_written = 2, columns_detected = 2\<rparr>"
    by code_simp
  from h C2_counts_partition [OF h] show ?thesis
    by simp
qed

subsection \<open>C3: stable filter, first occurrence wins\<close>

text \<open>
  C3. In a run that starts with an empty seen-set and a new writer, every record gets one
  outcome; the data rows of the worksheet, from row 2 on, are the admitted records in input
  order (the input restricted to the admitted positions), with nothing below them; and a
  valid record with a non-empty key is admitted when no earlier valid record has its key,
  and is a duplicate, hence not written, otherwise.
\<close>

theorem C3_stable_first_occurrence:
  assumes "process_records U self (ExcelWriter_init cc) ps = Inr (outs, self', w')"
    and "seen_products (duplicate_detector self) = {}"
  shows "length outs = length ps \<and>
         admitted_of ps outs = map fst (filter (\<lambda>(p, out). out = Admitted) (zip ps outs)) \<and>
         get_rows_written w' = int (length (admitted_of ps outs)) \<and>
         (\<forall>k<length (admitted_of ps outs).
            sheet_row (worksheet w') (2 + int k) = row_cells cc (admitted_of ps outs ! k)) \<and>
         (\<forall>r c. 2 + int (length (admitted_of ps outs)) \<le> r \<longrightarrow> worksheet w' (r, c) = None) \<and>
         (\<forall>i<length ps. is_valid U (ps ! i) \<and> normalize_name U (ps ! i) \<noteq> [] \<longrightarrow>
            outs ! i =
              (if \<exists>j<i. is_valid U (ps ! j) \<and>
                         normalize_name U (ps ! j) = normalize_name U (ps ! i)
               then Duplicate else Admitted))"
proof -
  have len: "length outs = length ps"
    by (rule process_records_length [OF assms(1)])
  have row: "current_row w' = 2 + int (length (admitted_of ps outs))"
    using process_records_counts(5) [OF assms(1)] length_admitted_of [OF len]
    by (simp add: ExcelWriter_init_def)
  have sheet: "rows_free w' \<and>
         (\<forall>i j. i < current_row (ExcelWriter_init cc :: 'a ExcelWriter) \<longrightarrow>
            worksheet w' (i, j) = worksheet (ExcelWriter_init cc :: 'a ExcelWriter) (i, j)) \<and>
         (\<forall>k<length (admitted_of ps outs).
            sheet_row (worksheet w') (current_row (ExcelWriter_init cc :: 'a ExcelWriter) + int k) =
              row_cells (column_count (ExcelWriter_init cc :: 'a ExcelWriter))
                (admitted_of ps outs ! k))"
    by (rule process_records_sheet [OF assms(1) rows_free_init])
  have rows: "\<forall>k<length (admitted_of ps outs).
            sheet_row (worksheet w') (2 + int k) = row_cells cc (admitted_of ps outs ! k)"
    using sheet by (simp add: ExcelWriter_init_def)
  have free: "\<forall>r c. 2 + int (length (admitted_of ps outs)) \<le> r \<longrightarrow> worksheet w' (r, c) = None"
    using sheet row by (simp add: rows_free_def)
  have first: "\<forall>i<length ps. is_valid U (ps ! i) \<and> normalize_name U (ps ! i) \<noteq> [] \<longrightarrow>
            outs ! i =
              (if \<exists>j<i. is_valid U (ps ! j) \<and>
                         normalize_name U (ps ! j) = normalize_name U (ps ! i)
               then Duplicate else Admitted)"
  proof (intro allI impI)
    fix i
    assume i: "i < length ps"
      and v: "is_valid U (ps ! i) \<and> normalize_name U (ps ! i) \<noteq> []"
    show "outs ! i =
              (if \<exists>j<i. is_valid U (ps ! j) \<and>
                         normalize_name U (ps ! j) = normalize_name U (ps ! i)
               then Duplicate else Admitted)"
      using process_records_nth_valid [OF assms(1) i] v
      by (simp only: assms(2) empty_iff simp_thms)
  qed
  show ?thesis
    using len admitted_of_zip [OF len] row rows free first
    by (simp add: get_rows_written_def)
qed


theorem C3_witness:
  "seen_products (duplicate_detector (CSVToExcelConverter_init :: char CSVToExcelConverter)) = {} \<and>
   (\<exists>outs self' w'.
      process_records ascii CSVToExcelConverter_init (ExcelWriter_init 2)
        (read_records ascii scenario_rows True) = Inr (outs, self', w') \<and>
      outs = [Admitted, Admitted, Duplicate] \<and>
      get_rows_written w' = 2 \<and>
      sheet_row (worksheet w') 2 = (Some (Text ''Apple  Pie''), Some (Text ''10''), None) \<and>
      sheet_row (worksheet w') 3 = (Some (Text ''Banana''), Some (Text []), None) \<and>
      sheet_row (worksheet w') 4 = (None, None, None))"
proof -
  have seen: "seen_products (duplicate_detector (CSVToExcelConverter_init :: char CSVToExcelConverter)) = {}"
    by (simp add: CSVToExcelConverter_init_def DuplicateDetector_init_def)
  have ok: "\<not> isl (process_records ascii CSVToExcelConverter_init (ExcelWriter_init 2)
        (read_records ascii scenario_rows True))"
    by code_simp
  have o: "map_sum id fst (process_records ascii CSVToExcelConverter_init (ExcelWriter_init 2)
        (read_records ascii scenario_rows True)) = Inr [Admitted, Admitted, Duplicate]"
    by code_simp
  have ps: "read_records ascii scenario_rows True =
    [\<lparr>product_name = ''Apple  Pie'', price = ''10'', category = [], row_number = 2\<rparr>,
     \<lparr>product_name = ''Banana'', price = [], category = [], row_number = 3\<rparr>,
     \<lparr>product_name = ''aPPLE pie'', price = ''12'', category = [], row_number = 4\<rparr>]"
    by code_simp
  from ok obtain outs self' w' where
    run: "process_records ascii CSVToExcelConverter_init (ExcelWriter_init 2)
        (read_records ascii scenario_rows True) = Inr (outs, self', w')"
    by (rule process_records_InrE)
  have outs: "outs = [Admitted, Admitted, Duplicate]"
    using o run by simp
  note c = C3_stable_first_occurrence [OF run seen]
  have adm: "admitted_of (read_records ascii scenario_rows True) outs =
    [\<lparr>product_name = ''Apple  Pie'', price = ''10'', category = [], row_number = 2\<rparr>,
     \<lparr>product_name = ''Banana'', price = [], category = [], row_number = 3\<rparr>]"
    by (simp add: ps outs)
  have n: "get_rows_written w' = 2"
    using c adm by simp
  have r2: "sheet_row (worksheet w') 2 = (Some (Text ''Apple  Pie''), Some (Text ''10''), None)"
    using c [THEN conjunct2, THEN conjunct2, THEN conjunct2, THEN conjunct1, rule_format, of 0]
    by (simp add: adm row_cells_def)
  have r3: "sheet_row (worksheet w') 3 = (Some (Text ''Banana''), Some (Text []), None)"
    using c [THEN conjunct2, THEN conjunct2, THEN conjunct2, THEN conjunct1, rule_format, of 1]
    by (simp add: adm row_cells_def)
  have r4: "sheet_row (worksheet w') 4 = (None, None, None)"
    using c [THEN conjunct2, THEN conjunct2, THEN conjunct2, THEN conjunct2, THEN conjunct1]
    by (simp add: adm sheet_row_def)
  show ?thesis
    using seen run outs n r2 r3 r4 by blast
qed

subsection \<open>C4: what reaches the price and category cells\<close>




subsection \<open>C5: an empty name with a non-empty price\<close>

text \<open>
  C5. A record whose name is empty after trimming and whose price is not empty takes the
  invalid branch: the total and the invalid counter go up by one, the empty-row counter,
  the detector (seen-set and duplicate count) and the writer stay as they were, so the
  record is not admitted. On the rows \<^verbatim>\<open>["",""]\<close>, \<^verbatim>\<open>["","5"]\<close> after a header the first is
  blank, the second invalid, and nothing is written.
\<close>

theorem C5_empty_name_is_invalid:
  "(py_strip U (product_name p) = [] \<and> price p \<noteq> [] \<longrightarrow>
      process_record U self w p =
        Inr (Invalid,
             self\<lparr>statistics := (statistics self)
                    \<lparr>total_rows_read := total_rows_read (statistics self) + 1,
                     invalid_rows_skipped := invalid_rows_skipped (statistics self) + 1\<rparr>\<rparr>,
             w)) \<and>
   map_sum id fst
     (process_records ascii CSVToExcelConverter_init (ExcelWriter_init 2)
        (read_records ascii [[''name'', ''price''], ['''', ''''], ['''', ''5'']] True))
     = Inr [Blank, Invalid] \<and>
   fst (convert ascii CSVToExcelConverter_init
          [[''name'', ''price''], ['''', ''''], ['''', ''5'']] None)
     = Inr \<lparr>total_rows_read = 2, empty_rows_skipped = 1, invalid_rows_skipped = 1,
            duplicate_rows_skipped = 0, unique_products_written = 0, columns_detected = 2\<rparr>"
proof -
  have a: "map_sum id fst
     (process_records ascii CSVToExcelConverter_init (ExcelWriter_init 2)
        (read_records ascii [[''name'', ''price''], ['''', ''''], ['''', ''5'']] True))
     = Inr [Blank, Invalid]"
    by code_simp
  have b: "fst (convert ascii CSVToExcelConverter_init
          [[''name'', ''price''], ['''', ''''], ['''', ''5'']] None)
     = Inr \<lparr>total_rows_read = 2, empty_rows_skipped = 1, invalid_rows_skipped = 1,
            duplicate_rows_skipped = 0, unique_products_written = 0, columns_detected = 2\<rparr>"
    by code_simp
  show ?thesis
    using a b process_record_invalid [of U p self w] by blast
qed

theorem C5_witness:
  "py_strip ascii (product_name
      \<lparr>product_name = '' '', price = ''5'', category = '''', row_number = 7\<rparr>) = [] \<and>
   map_sum id fst (process_record ascii CSVToExcelConverter_init (ExcelWriter_init 2)
      \<lparr>product_name = '' '', price = ''5'', category = '''', row_number = 7\<rparr>) = Inr Invalid"
proof -
  have h: "py_strip ascii (product_name
      \<lparr>product_name = '' '', price = ''5'', category = '''', row_number = 7\<rparr>) = [] \<and>
      price \<lparr>product_name = '' '', price = ''5'', category = '''', row_number = 7\<rparr> \<noteq> []"
    by code_simp
  show ?thesis
    using h C5_empty_name_is_invalid [of ascii
      "\<lparr>product_name = '' '', price = ''5'', category = '''', row_number = 7\<rparr>"
      CSVToExcelConverter_init "ExcelWriter_init 2"]
    by simp
qed

subsection \<open>C6: the row limit\<close>

text \<open>
  C6. When the worksheet already holds \<^verbatim>\<open>MAX_EXCEL_ROWS\<close> rows (the header and
  \<^verbatim>\<open>MAX_EXCEL_ROWS - 1\<close> records) and one more record passes the filter, \<^verbatim>\<open>write_record\<close>
  raises \<^verbatim>\<open>ValueError\<close>, the loop and \<^verbatim>\<open>convert\<close> end with that error, and the output file is
  what it was before the call: \<^verbatim>\<open>save\<close> is not reached.
\<close>

theorem C6_row_limit_aborts:
  assumes "read_records U file True = pre @ p # post"
    and "process_records U
           (self\<lparr>statistics := (statistics self)
              \<lparr>columns_detected := detect_column_count U file\<rparr>\<rparr>)
           (ExcelWriter_init (detect_column_count U file)) pre = Inr (outs, self', w')"
    and "get_rows_written w' = MAX_EXCEL_ROWS - 1"
    and "is_valid U p"
    and "\<not> fst (is_duplicate U (duplicate_detector self') p)"
  shows "write_record w' p = Inl ValueError \<and>
         convert_loop U self file = Inl ValueError \<and>
         convert U self file disk = (Inl ValueError, disk)"
proof -
  have full: "current_row w' > MAX_EXCEL_ROWS"
    using assms(3) by (simp add: get_rows_written_def)
  then have wr: "write_record w' p = Inl ValueError"
    by (simp add: write_record_def)
  have step: "process_record U self' w' p = Inl ValueError"
    using full assms(4,5) by (rule process_record_limit)
  have loop: "convert_loop U self file = Inl ValueError"
    unfolding convert_loop_def assms(1) process_records_append
    by (simp add: assms(2) step)
  then have "convert U self file disk = (Inl ValueError, disk)"
    by (rule convert_Inl)
  with wr loop show ?thesis
    by simp
qed

theorem C6_witness:
  "convert ascii CSVToExcelConverter_init (many_products 1048576) None = (Inl ValueError, None)"
proof -
  define N :: nat where "N = 1048575"
  have N: "int N = MAX_EXCEL_ROWS - 1"
    by (simp add: N_def MAX_EXCEL_ROWS_def)
  have SN: "many_products 1048576 = many_products (Suc N)"
    by (simp add: N_def)
  from many_products_prefix [OF N] obtain self' w' where
    run: "process_records ascii
             (CSVToExcelConverter_init\<lparr>statistics :=
                (statistics (CSVToExcelConverter_init :: char CSVToExcelConverter))
                  \<lparr>columns_detected := detect_column_count ascii (many_products (Suc N))\<rparr>\<rparr>)
             (ExcelWriter_init (detect_column_count ascii (many_products (Suc N))))
             (read_rows ascii 2 (map product_row [0..<N]))
             = Inr (replicate N Admitted, self', w')" and
    n: "get_rows_written w' = MAX_EXCEL_ROWS - 1" and
    d: "\<not> fst (is_duplicate ascii (duplicate_detector self')
                    (read_row ascii (2 + int N) (product_row N)))"
    by blast
  from C6_row_limit_aborts [OF many_products_records run n read_row_product(1) d, of None]
  show ?thesis
    unfolding SN by simp
qed

subsection \<open>C7: column-count detection\<close>

text \<open>
  C7. \<^verbatim>\<open>detect_column_count\<close> returns 2 for a file without rows or with an empty first row,
  and otherwise the number of cells of the first row that are not blank after trimming
  (all cells minus the blank ones), raised to at least 2. The result depends on the first
  row only: any other rows, and hence whatever the record reader skips, do not change it.
\<close>

theorem C7_detect_column_count:
  "detect_column_count U [] = 2 \<and>
   detect_column_count U ([] # rest) = 2 \<and>
   detect_column_count U (first_row # rest) =
     max (int (length first_row)
            - int (length (filter (\<lambda>col. py_strip U col = []) first_row))) 2 \<and>
   detect_column_count U (first_row # rest) = detect_column_count U (first_row # rest') \<and>
   detect_column_count U file = detect_column_count U (take 1 file)"
proof -
  have "int (length first_row) =
          int (length (filter (\<lambda>col. py_strip U col = []) first_row))
          + int (length (filter (\<lambda>col. py_strip U col \<noteq> []) first_row))"
    using sum_length_filter_compl [of "\<lambda>col. py_strip U col = []" first_row] by simp
  then show ?thesis
    by (cases "file") (auto simp: detect_column_count_def)
qed

theorem C7_witness:
  "detect_column_count ascii [[''name'', '' '', ''price'', ''category'', ''''], [''a'']] = 3 \<and>
   detect_column_count ascii [[''name'', '' ''], [''a'', ''1'', ''x'']] = 2"
proof -
  have "detect_column_count ascii [[''name'', '' '', ''price'', ''category'', ''''], [''a'']] = 3"
    using C7_detect_column_count [of ascii "[[''a'']]"
      "[''name'', '' '', ''price'', ''category'', '''']"]
    by code_simp
  moreover have "detect_column_count ascii [[''name'', '' ''], [''a'', ''1'', ''x'']] = 2"
    by code_simp
  ultimately show ?thesis by blast
qed

subsection \<open>C8: a line without fields\<close>

text \<open>
  C8. A line that parses to zero fields is read as a record with empty name and price: its
  iteration takes the blank branch and increments the empty-row counter, and it also
  increments the number of rows read; the other counters, the detector and the writer are
  unchanged. On a file holding a header and one such line the run reports one row read.
\<close>

theorem C8_zero_fields_counted_blank_and_read:
  "process_record U self w (read_row U n []) =
     Inr (Blank,
          self\<lparr>statistics := (statistics self)
                 \<lparr>total_rows_read := total_rows_read (statistics self) + 1,
                  empty_rows_skipped := empty_rows_skipped (statistics self) + 1\<rparr>\<rparr>,
          w)"
  by (simp add: process_record_blank read_row_def)

text \<open>The header and one line without fields: one row read, one empty row.\<close>

theorem C8_counterexample:
  "fst (convert ascii CSVToExcelConverter_init [[''name'', ''price''], []] None)
     = Inr \<lparr>total_rows_read = 1, empty_rows_skipped = 1, invalid_rows_skipped = 0,
            duplicate_rows_skipped = 0, unique_products_written = 0, columns_detected = 2\<rparr>"
  by code_simp

subsection \<open>C9: the filter on its own output\<close>



subsection \<open>C10: a record with an empty normalized name\<close>

text \<open>
  C10. For every record whose name normalizes to the empty string, \<^verbatim>\<open>is_duplicate\<close> returns
  \<^verbatim>\<open>False\<close> and returns the detector as it was: nothing is added to the seen-set and the
  duplicate count is not incremented.
\<close>

theorem C10_empty_key_not_duplicate:
  "normalize_name U p = [] \<Longrightarrow> is_duplicate U d p = (False, d)"
  by (simp add: is_duplicate_def)

theorem C10_witness:
  "normalize_name ascii
     \<lparr>product_name = ''   '', price = ''5'', category = '''', row_number = 2\<rparr> = [] \<and>
   is_duplicate ascii \<lparr>seen_products = {''apple''}, duplicate_count = 3\<rparr>
     \<lparr>product_name = ''   '', price = ''5'', category = '''', row_number = 2\<rparr>
   = (False, \<lparr>seen_products = {''apple''}, duplicate_count = 3\<rparr>)"
proof -
  have h: "normalize_name ascii
     \<lparr>product_name = ''   '', price = ''5'', category = '''', row_number = 2\<rparr> = []"
    by code_simp
  from h C10_empty_key_not_duplicate [OF h] show ?thesis
    by blast
qed

end
